theory Spec2Isabelle
  imports Main "HOL-Library.Word"
begin

unbundle bit_operations_syntax

section \<open>Data model of eFlexPwmTimer.cpp\<close>

text \<open>
  The file \<^verbatim>\<open>source/eFlexPwmTimer.cpp\<close> implements the methods of class \<^verbatim>\<open>Timer\<close>.
  The class declaration, the class \<^verbatim>\<open>SubModule\<close>, the global tables \<^verbatim>\<open>SmList\<close> and \<^verbatim>\<open>PWM\<close>,
  the inline primitives \<^verbatim>\<open>stop\<close>, \<^verbatim>\<open>start\<close>, \<^verbatim>\<open>setPwmLdok\<close> and the SDK functions live in
  headers; what the methods need of them is modelled below and marked as such.
\<close>

text \<open>A \<^verbatim>\<open>SubModule *\<close> is the identity of a submodule object; the null pointer is \<open>None\<close>.\<close>

type_synonym SubModule = nat

text \<open>A \<^verbatim>\<open>PWM_Type *\<close> is the identity of a register block.\<close>

type_synonym PWM_Type = nat

text \<open>
  The SDK enumerations \<^verbatim>\<open>pwm_level_select_t\<close> and \<^verbatim>\<open>pwm_fault_state_t\<close> are carried by
  their integer value, the native fault record \<^verbatim>\<open>pwm_fault_param_t\<close> by an identity.
\<close>

type_synonym pwm_level_select_t = nat
type_synonym pwm_fault_state_t = nat
type_synonym pwm_fault_param_t = nat

text \<open>\<^verbatim>\<open>FaultConfig\<close>: the only member the Timer reads is \<^verbatim>\<open>kPwmConfig()\<close>.\<close>

record FaultConfig =
  kPwmConfig :: pwm_fault_param_t

text \<open>
  The sixteen crossbar output macros that fill \<^verbatim>\<open>XBarFaultOutput\<close>. Their numeric values
  are defined outside the file; the table is kept symbolic.
\<close>

datatype xbar_output =
    XBARA1_OUT_FLEXPWM1_FAULT0 | XBARA1_OUT_FLEXPWM1_FAULT1
  | XBARA1_OUT_FLEXPWM1_FAULT2 | XBARA1_OUT_FLEXPWM1_FAULT3
  | XBARA1_OUT_FLEXPWM2_FAULT0 | XBARA1_OUT_FLEXPWM2_FAULT1
  | XBARA1_OUT_FLEXPWM2_FAULT2 | XBARA1_OUT_FLEXPWM2_FAULT3
  | XBARA1_OUT_FLEXPWM3_FAULT0 | XBARA1_OUT_FLEXPWM3_FAULT1
  | XBARA1_OUT_FLEXPWM3_FAULT2 | XBARA1_OUT_FLEXPWM3_FAULT3
  | XBARA1_OUT_FLEXPWM4_FAULT0 | XBARA1_OUT_FLEXPWM4_FAULT1
  | XBARA1_OUT_FLEXPWM4_FAULT2 | XBARA1_OUT_FLEXPWM4_FAULT3

text \<open>
  Every call that leaves the file is recorded, in order. For the two submodule methods
  that return \<^verbatim>\<open>bool\<close> the last component is the value the call returned. The output of
  \<^verbatim>\<open>xbar_connect\<close> is \<open>None\<close> when the table was read outside its row.
\<close>

datatype event =
    Stop PWM_Type
  | Start PWM_Type
  | SetPwmLdok PWM_Type bool
  | SmBegin SubModule bool bool bool
  | SmEnable SubModule bool
  | SmSetupLevel SubModule pwm_level_select_t
  | SmSetupDeadtime SubModule "16 word"
  | SmSetupOutputEnable SubModule bool
  | SmSetupDutyCyclePercent SubModule "8 word"
  | SmSetupFaultState SubModule pwm_fault_state_t
  | SmUpdateSetting SubModule bool bool
  | XbarConnect int "xbar_output option"
  | PwmSetupFaults PWM_Type "8 word" pwm_fault_param_t

text \<open>The fields of \<^verbatim>\<open>Timer\<close> set by the constructor (lines 18-20).\<close>

record Timer =
  m_tmidx :: "8 word"
  m_ptr :: PWM_Type
  m_isenabled :: bool

text \<open>
  The state a method runs in: the object itself, the global \<^verbatim>\<open>SmList\<close> (timer index and
  slot to submodule pointer), the two bits of the register block the Timer drives
  (counters running, load-ok set), and the calls made so far.
\<close>

record state =
  this :: Timer
  SmList :: "nat \<Rightarrow> nat \<Rightarrow> SubModule option"
  running :: "PWM_Type \<Rightarrow> bool"
  ldok :: "PWM_Type \<Rightarrow> bool"
  calls :: "event list"

text \<open>
  Modelled from the spec: the class \<^verbatim>\<open>SubModule\<close> is not in the file. Section 6 gives its
  \<^verbatim>\<open>begin(startFlag, syncFlag) -> bool\<close> and \<^verbatim>\<open>updateSetting(syncFlag) -> bool\<close>; what they return
  is a parameter, and may depend on every call made before.
\<close>

record env =
  begin_ret :: "event list \<Rightarrow> SubModule \<Rightarrow> bool \<Rightarrow> bool \<Rightarrow> bool"
  updateSetting_ret :: "event list \<Rightarrow> SubModule \<Rightarrow> bool \<Rightarrow> bool"

text \<open>
  Modelled from the spec: the constants of the header. Section 3 fixes four timers and
  four slots per timer; the comment at line 245 gives index 0 to \<^verbatim>\<open>PWM1\<close>.
\<close>

definition NofTimers :: nat where
  "NofTimers = 4"

definition NofSubmodules :: nat where
  "NofSubmodules = 4"

definition Pwm1 :: "8 word" where "Pwm1 = 0"
definition Pwm2 :: "8 word" where "Pwm2 = 1"
definition Pwm3 :: "8 word" where "Pwm3 = 2"
definition Pwm4 :: "8 word" where "Pwm4 = 3"

section \<open>Primitives of the header\<close>

definition emit :: "event \<Rightarrow> state \<Rightarrow> state" where
  "emit e st = st\<lparr>calls := calls st @ [e]\<rparr>"

text \<open>
  Modelled from the spec: \<^verbatim>\<open>stop()\<close> and \<^verbatim>\<open>start()\<close> act on the register block and change
  the counter run state only; \<^verbatim>\<open>setPwmLdok(b)\<close> sets the load-ok commit flag to \<open>b\<close>
  (section 6).
\<close>

definition stop :: "state \<Rightarrow> state" where
  "stop st = emit (Stop (m_ptr (this st)))
     (st\<lparr>running := (running st)(m_ptr (this st) := False)\<rparr>)"

definition start :: "state \<Rightarrow> state" where
  "start st = emit (Start (m_ptr (this st)))
     (st\<lparr>running := (running st)(m_ptr (this st) := True)\<rparr>)"

definition setPwmLdok :: "bool \<Rightarrow> state \<Rightarrow> state" where
  "setPwmLdok b st = emit (SetPwmLdok (m_ptr (this st)) b)
     (st\<lparr>ldok := (ldok st)(m_ptr (this st) := b)\<rparr>)"

text \<open>
  Modelled from the spec: a call of a submodule method. It touches neither the Timer
  object nor the run and load-ok bits (section 6: it affects that submodule's own
  registers only); the call and its result are recorded.
\<close>

definition SubModule_begin ::
  "env \<Rightarrow> SubModule \<Rightarrow> bool \<Rightarrow> bool \<Rightarrow> state \<Rightarrow> bool \<times> state" where
  "SubModule_begin E s doStart doSync st =
     (let r = begin_ret E (calls st) s doStart doSync
      in (r, emit (SmBegin s doStart doSync r) st))"

definition SubModule_updateSetting ::
  "env \<Rightarrow> SubModule \<Rightarrow> bool \<Rightarrow> state \<Rightarrow> bool \<times> state" where
  "SubModule_updateSetting E s doSync st =
     (let r = updateSetting_ret E (calls st) s doSync
      in (r, emit (SmUpdateSetting s doSync r) st))"

section \<open>The methods of Timer\<close>

text \<open>Lines 18-20. \<^verbatim>\<open>PWM\<close>, the table of register blocks, is a parameter.\<close>

definition Timer_ctor :: "(nat \<Rightarrow> PWM_Type) \<Rightarrow> 8 word \<Rightarrow> Timer" where
  "Timer_ctor PWM index =
     \<lparr>m_tmidx = index, m_ptr = PWM (unat index), m_isenabled = True\<rparr>"

text \<open>
  Lines 36-43: the loop of \<^verbatim>\<open>Timer::begin\<close>. Its condition is
  \<^verbatim>\<open>(i < NofSubmodules) && success\<close>. The counter stays below 5, so \<^verbatim>\<open>uint8_t\<close> never wraps.
\<close>

function begin_loop :: "env \<Rightarrow> nat \<Rightarrow> bool \<Rightarrow> state \<Rightarrow> bool \<times> state" where
  "begin_loop E i success st =
     (if i < NofSubmodules \<and> success then
        (case SmList st (unat (m_tmidx (this st))) i of
           None \<Rightarrow> begin_loop E (i + 1) success st
         | Some s \<Rightarrow>
             begin_loop E (i + 1)
               (success \<and> fst (SubModule_begin E s False False st))
               (snd (SubModule_begin E s False False st)))
      else (success, st))"
  by pat_completeness auto
termination
  by (relation "measure (\<lambda>(E, i, success, st). NofSubmodules - i)") auto

declare begin_loop.simps [simp del]

text \<open>Lines 23-54.\<close>

definition Timer_begin :: "env \<Rightarrow> bool \<Rightarrow> bool \<Rightarrow> state \<Rightarrow> bool \<times> state" where
  "Timer_begin E doStart doSync st0 =
     (let st1 = (if doStart then stop st0 else st0);
          st2 = (if doSync then setPwmLdok False st1 else st1);
          (success, st3) = begin_loop E 0 True st2;
          st4 = (if doSync then setPwmLdok True st3 else st3);
          st5 = (if doStart \<and> success then start st4 else st4)
      in (success, st5))"

text \<open>
  Lines 59-65, 74-81, 87-94, 100-107, 113-120 and 126-133: the same loop six times, over
  every slot, with one \<^verbatim>\<open>void\<close> call on each present submodule. The call is the parameter.
\<close>

function broadcast_loop :: "(SubModule \<Rightarrow> event) \<Rightarrow> nat \<Rightarrow> state \<Rightarrow> state" where
  "broadcast_loop c i st =
     (if i < NofSubmodules then
        (case SmList st (unat (m_tmidx (this st))) i of
           None \<Rightarrow> broadcast_loop c (i + 1) st
         | Some s \<Rightarrow> broadcast_loop c (i + 1) (emit (c s) st))
      else st)"
  by pat_completeness auto
termination
  by (relation "measure (\<lambda>(c, i, st). NofSubmodules - i)") auto

declare broadcast_loop.simps [simp del]

text \<open>Lines 57-68.\<close>

definition Timer_enable :: "bool \<Rightarrow> state \<Rightarrow> state" where
  "Timer_enable v st0 =
     (let st1 = broadcast_loop (\<lambda>s. SmEnable s v) 0 st0
      in st1\<lparr>this := (this st1)\<lparr>m_isenabled := v\<rparr>\<rparr>)"

text \<open>Lines 72-134.\<close>

definition Timer_setupLevel :: "pwm_level_select_t \<Rightarrow> state \<Rightarrow> state" where
  "Timer_setupLevel level st = broadcast_loop (\<lambda>s. SmSetupLevel s level) 0 st"

definition Timer_setupDeadtime :: "16 word \<Rightarrow> state \<Rightarrow> state" where
  "Timer_setupDeadtime deadtimeValue st =
     broadcast_loop (\<lambda>s. SmSetupDeadtime s deadtimeValue) 0 st"

definition Timer_setupOutputEnable :: "bool \<Rightarrow> state \<Rightarrow> state" where
  "Timer_setupOutputEnable activate st =
     broadcast_loop (\<lambda>s. SmSetupOutputEnable s activate) 0 st"

definition Timer_setupDutyCyclePercent :: "8 word \<Rightarrow> state \<Rightarrow> state" where
  "Timer_setupDutyCyclePercent dutyCyclePercent st =
     broadcast_loop (\<lambda>s. SmSetupDutyCyclePercent s dutyCyclePercent) 0 st"

definition Timer_setupFaultState :: "pwm_fault_state_t \<Rightarrow> state \<Rightarrow> state" where
  "Timer_setupFaultState faultState st =
     broadcast_loop (\<lambda>s. SmSetupFaultState s faultState) 0 st"

text \<open>Lines 140-147: the loop of \<^verbatim>\<open>Timer::updateSetting\<close>; its condition is \<^verbatim>\<open>i < NofSubmodules\<close>.\<close>

function updateSetting_loop ::
  "env \<Rightarrow> bool \<Rightarrow> nat \<Rightarrow> bool \<Rightarrow> state \<Rightarrow> bool \<times> state" where
  "updateSetting_loop E doSync i success st =
     (if i < NofSubmodules then
        (case SmList st (unat (m_tmidx (this st))) i of
           None \<Rightarrow> updateSetting_loop E doSync (i + 1) success st
         | Some s \<Rightarrow>
             updateSetting_loop E doSync (i + 1)
               (success \<and> fst (SubModule_updateSetting E s doSync st))
               (snd (SubModule_updateSetting E s doSync st)))
      else (success, st))"
  by pat_completeness auto
termination
  by (relation "measure (\<lambda>(E, doSync, i, success, st). NofSubmodules - i)") auto

declare updateSetting_loop.simps [simp del]

text \<open>Lines 137-149.\<close>

definition Timer_updateSetting :: "env \<Rightarrow> bool \<Rightarrow> state \<Rightarrow> bool \<times> state" where
  "Timer_updateSetting E doSync st = updateSetting_loop E doSync 0 True st"

text \<open>Lines 151-177: four rows of four entries.\<close>

definition XBarFaultOutput :: "xbar_output list list" where
  "XBarFaultOutput =
     [[XBARA1_OUT_FLEXPWM1_FAULT0, XBARA1_OUT_FLEXPWM1_FAULT1,
       XBARA1_OUT_FLEXPWM1_FAULT2, XBARA1_OUT_FLEXPWM1_FAULT3],
      [XBARA1_OUT_FLEXPWM2_FAULT0, XBARA1_OUT_FLEXPWM2_FAULT1,
       XBARA1_OUT_FLEXPWM2_FAULT2, XBARA1_OUT_FLEXPWM2_FAULT3],
      [XBARA1_OUT_FLEXPWM3_FAULT0, XBARA1_OUT_FLEXPWM3_FAULT1,
       XBARA1_OUT_FLEXPWM3_FAULT2, XBARA1_OUT_FLEXPWM3_FAULT3],
      [XBARA1_OUT_FLEXPWM4_FAULT0, XBARA1_OUT_FLEXPWM4_FAULT1,
       XBARA1_OUT_FLEXPWM4_FAULT2, XBARA1_OUT_FLEXPWM4_FAULT3]]"

text \<open>
  The read \<^verbatim>\<open>XBarFaultOutput[t][f]\<close>. C++ checks no bound; a read outside the row it names
  yields no entry of the table, which is \<open>None\<close> here.
\<close>

definition XBarFaultOutput_at :: "nat \<Rightarrow> nat \<Rightarrow> xbar_output option" where
  "XBarFaultOutput_at t f =
     (if t < length XBarFaultOutput \<and> f < length (XBarFaultOutput ! t)
      then Some (XBarFaultOutput ! t ! f) else None)"

text \<open>
  Lines 180-189. \<^verbatim>\<open>faultPin\<close> is an \<^verbatim>\<open>int\<close>; it reaches \<^verbatim>\<open>xbar_connect\<close> only when positive, so
  the conversion to \<^verbatim>\<open>unsigned int\<close> keeps its value. After a read outside the row the
  method goes on to line 187, as the compiled code does.
\<close>

definition Timer_setupFaults :: "8 word \<Rightarrow> FaultConfig \<Rightarrow> int \<Rightarrow> state \<Rightarrow> state" where
  "Timer_setupFaults faultNum faultConfig faultPin st0 =
     (if faultNum AND 0x03 = 0 then
        (let st1 = (if faultPin > 0
                    then emit (XbarConnect faultPin
                           (XBarFaultOutput_at (unat (m_tmidx (this st0))) (unat faultNum))) st0
                    else st0)
         in emit (PwmSetupFaults (m_ptr (this st1)) faultNum (kPwmConfig faultConfig)) st1)
      else st0)"

text \<open>Lines 251-256: the registry, built at start-up.\<close>

definition TMF :: "(nat \<Rightarrow> PWM_Type) \<Rightarrow> Timer list" where
  "TMF PWM = [Timer_ctor PWM Pwm1, Timer_ctor PWM Pwm2, Timer_ctor PWM Pwm3, Timer_ctor PWM Pwm4]"

section \<open>Sequences of public operations\<close>

datatype op =
    Begin bool bool
  | Enable bool
  | SetupLevel pwm_level_select_t
  | SetupDeadtime "16 word"
  | SetupOutputEnable bool
  | SetupDutyCyclePercent "8 word"
  | SetupFaultState pwm_fault_state_t
  | UpdateSetting bool
  | SetupFaults "8 word" FaultConfig int

fun exec :: "env \<Rightarrow> op \<Rightarrow> state \<Rightarrow> state" where
  "exec E (Begin doStart doSync) st = snd (Timer_begin E doStart doSync st)"
| "exec E (Enable v) st = Timer_enable v st"
| "exec E (SetupLevel level) st = Timer_setupLevel level st"
| "exec E (SetupDeadtime d) st = Timer_setupDeadtime d st"
| "exec E (SetupOutputEnable a) st = Timer_setupOutputEnable a st"
| "exec E (SetupDutyCyclePercent p) st = Timer_setupDutyCyclePercent p st"
| "exec E (SetupFaultState f) st = Timer_setupFaultState f st"
| "exec E (UpdateSetting doSync) st = snd (Timer_updateSetting E doSync st)"
| "exec E (SetupFaults n c p) st = Timer_setupFaults n c p st"

fun run :: "env \<Rightarrow> op list \<Rightarrow> state \<Rightarrow> state" where
  "run E [] st = st"
| "run E (x # xs) st = run E xs (exec E x st)"

text \<open>The value the enabled flag must hold after a sequence: that of the last \<open>Enable\<close>.\<close>

fun last_enable :: "op list \<Rightarrow> bool \<Rightarrow> bool" where
  "last_enable [] b = b"
| "last_enable (Enable v # xs) b = last_enable xs v"
| "last_enable (x # xs) b = last_enable xs b"

section \<open>Reading the record of calls\<close>

text \<open>The submodules present for timer \<open>t\<close> in the slots \<open>is\<close>, in that order.\<close>

definition present :: "state \<Rightarrow> nat \<Rightarrow> nat list \<Rightarrow> SubModule list" where
  "present st t is = List.map_filter (SmList st t) is"

text \<open>The calls a method added to the record.\<close>

definition new_calls :: "state \<Rightarrow> state \<Rightarrow> event list" where
  "new_calls st st' = drop (length (calls st)) (calls st')"

fun is_SmBegin :: "event \<Rightarrow> bool" where
  "is_SmBegin (SmBegin s a b r) = True"
| "is_SmBegin e = False"

fun is_SetPwmLdok :: "event \<Rightarrow> bool" where
  "is_SetPwmLdok (SetPwmLdok p b) = True"
| "is_SetPwmLdok e = False"

text \<open>The value a recorded call returned; a \<^verbatim>\<open>void\<close> call counts as success.\<close>

fun returned :: "event \<Rightarrow> bool" where
  "returned (SmBegin s a b r) = r"
| "returned (SmUpdateSetting s b r) = r"
| "returned e = True"

section \<open>A concrete timer\<close>

text \<open>
  Timer unit 2 with the slots A, B, C and an empty fourth slot (the submodule objects 10,
  11 and 12), stopped, load-ok set, nothing called yet; the register blocks are numbered
  from 100.
\<close>

definition st_unit2 :: state where
  "st_unit2 =
     \<lparr>this = Timer_ctor (\<lambda>i. 100 + i) Pwm3,
      SmList = (\<lambda>t i. if t = 2 \<and> i < 3 then Some (10 + i) else None),
      running = (\<lambda>p. False),
      ldok = (\<lambda>p. True),
      calls = []\<rparr>"

text \<open>Every submodule call succeeds.\<close>

definition env_ok :: env where
  "env_ok = \<lparr>begin_ret = (\<lambda>h s a b. True), updateSetting_ret = (\<lambda>h s b. True)\<rparr>"

text \<open>Submodule B (object 11) fails, the others succeed.\<close>

definition env_B_fails :: env where
  "env_B_fails =
     \<lparr>begin_ret = (\<lambda>h s a b. s \<noteq> 11), updateSetting_ret = (\<lambda>h s b. s \<noteq> 11)\<rparr>"

text \<open>
  Timer unit 0 with empty slots between the submodules: slots 0 and 2 are empty, slot 1
  holds object 20 and slot 3 holds object 21.
\<close>

definition st_gaps :: state where
  "st_gaps =
     \<lparr>this = Timer_ctor (\<lambda>i. 100 + i) Pwm1,
      SmList = (\<lambda>t i. if t = 0 \<and> i = 1 then Some 20
                      else if t = 0 \<and> i = 3 then Some 21 else None),
      running = (\<lambda>p. False),
      ldok = (\<lambda>p. True),
      calls = []\<rparr>"

definition cfg0 :: FaultConfig where
  "cfg0 = \<lparr>kPwmConfig = 0\<rparr>"

section \<open>Lemmas on the primitives and the loops\<close>

lemma emit_fields [simp]:
  "this (emit e st) = this st" "SmList (emit e st) = SmList st"
  "running (emit e st) = running st" "ldok (emit e st) = ldok st"
  "calls (emit e st) = calls st @ [e]"
  by (simp_all add: emit_def)

lemma present_Nil [simp]: "present st t [] = []"
  by (simp add: present_def)

lemma present_step:
  "i < n \<Longrightarrow> present st t [i..<n] =
     (case SmList st t i of None \<Rightarrow> present st t [Suc i..<n]
      | Some s \<Rightarrow> s # present st t [Suc i..<n])"
  by (simp add: present_def upt_conv_Cons split: option.splits)

lemma present_emit [simp]: "present (emit e st) = present st"
  by (simp add: present_def fun_eq_iff)

lemma begin_loop_exit:
  "\<not> (i < NofSubmodules \<and> b) \<Longrightarrow> begin_loop E i b st = (b, st)"
  by (subst begin_loop.simps) auto

lemma begin_loop_None:
  "i < NofSubmodules \<Longrightarrow> SmList st (unat (m_tmidx (this st))) i = None \<Longrightarrow>
   begin_loop E i True st = begin_loop E (Suc i) True st"
  by (subst begin_loop.simps) simp

lemma begin_loop_Some:
  "i < NofSubmodules \<Longrightarrow> SmList st (unat (m_tmidx (this st))) i = Some s \<Longrightarrow>
   begin_loop E i True st =
     begin_loop E (Suc i) (begin_ret E (calls st) s False False)
       (emit (SmBegin s False False (begin_ret E (calls st) s False False)) st)"
  by (subst begin_loop.simps) (simp add: SubModule_begin_def Let_def)

lemma begin_loop_frame:
  "this (snd (begin_loop E i b st)) = this st \<and>
   SmList (snd (begin_loop E i b st)) = SmList st \<and>
   running (snd (begin_loop E i b st)) = running st \<and>
   ldok (snd (begin_loop E i b st)) = ldok st"
proof (induction "NofSubmodules - i" arbitrary: i b st)
  case 0
  then show ?case by (simp add: begin_loop_exit)
next
  case (Suc n)
  then have lt: "i < NofSubmodules" and n: "n = NofSubmodules - Suc i" by auto
  show ?case
  proof (cases b)
    case False
    then show ?thesis by (simp add: begin_loop_exit)
  next
    case True
    show ?thesis
    proof (cases "SmList st (unat (m_tmidx (this st))) i")
      case None
      with True lt Suc.hyps(1)[OF n, of True st] show ?thesis
        by (simp add: begin_loop_None)
    next
      case (Some s)
      with True lt Suc.hyps(1)[OF n, of "begin_ret E (calls st) s False False"
          "emit (SmBegin s False False (begin_ret E (calls st) s False False)) st"]
      show ?thesis
        by (simp add: begin_loop_Some)
    qed
  qed
qed

lemma begin_loop_fields [simp]:
  "this (snd (begin_loop E i b st)) = this st"
  "SmList (snd (begin_loop E i b st)) = SmList st"
  "running (snd (begin_loop E i b st)) = running st"
  "ldok (snd (begin_loop E i b st)) = ldok st"
  using begin_loop_frame[of E i b st] by simp_all

lemma begin_loop_ok:
  "fst (begin_loop E i True st) \<Longrightarrow>
   calls (snd (begin_loop E i True st)) =
     calls st @ map (\<lambda>s. SmBegin s False False True)
       (present st (unat (m_tmidx (this st))) [i..<NofSubmodules])"
proof (induction "NofSubmodules - i" arbitrary: i st)
  case 0
  then show ?case by (simp add: begin_loop_exit)
next
  case (Suc n)
  then have lt: "i < NofSubmodules" and n: "n = NofSubmodules - Suc i" by auto
  show ?case
  proof (cases "SmList st (unat (m_tmidx (this st))) i")
    case None
    with lt Suc.prems Suc.hyps(1)[OF n, of st] show ?thesis
      by (simp add: begin_loop_None present_step)
  next
    case (Some s)
    let ?r = "begin_ret E (calls st) s False False"
    let ?st1 = "emit (SmBegin s False False ?r) st"
    from Some lt Suc.prems have f: "fst (begin_loop E (Suc i) ?r ?st1)"
      by (simp add: begin_loop_Some)
    have r: ?r
    proof (rule ccontr)
      assume "\<not> ?r"
      with f show False by (simp add: begin_loop_exit)
    qed
    with f Suc.hyps(1)[OF n, of ?st1] Some lt show ?thesis
      by (simp add: begin_loop_Some present_step)
  qed
qed

lemma begin_loop_fail:
  "\<not> fst (begin_loop E i True st) \<Longrightarrow>
   \<exists>j s. i \<le> j \<and> j < NofSubmodules \<and> SmList st (unat (m_tmidx (this st))) j = Some s \<and>
     calls (snd (begin_loop E i True st)) =
       calls st @ map (\<lambda>s. SmBegin s False False True)
         (present st (unat (m_tmidx (this st))) [i..<j]) @ [SmBegin s False False False]"
proof (induction "NofSubmodules - i" arbitrary: i st)
  case 0
  then show ?case by (simp add: begin_loop_exit)
next
  case (Suc n)
  then have lt: "i < NofSubmodules" and n: "n = NofSubmodules - Suc i" by auto
  let ?t = "unat (m_tmidx (this st))"
  show ?case
  proof (cases "SmList st ?t i")
    case None
    with lt Suc.prems have "\<not> fst (begin_loop E (Suc i) True st)"
      by (simp add: begin_loop_None)
    from Suc.hyps(1)[OF n this] obtain j s where j:
      "Suc i \<le> j" "j < NofSubmodules" "SmList st ?t j = Some s"
      "calls (snd (begin_loop E (Suc i) True st)) =
         calls st @ map (\<lambda>s. SmBegin s False False True)
           (present st ?t [Suc i..<j]) @ [SmBegin s False False False]"
      by blast
    from j(1) have "present st ?t [i..<j] = present st ?t [Suc i..<j]"
      using None by (simp add: present_step)
    with j None lt have
      "i \<le> j \<and> j < NofSubmodules \<and> SmList st ?t j = Some s \<and>
       calls (snd (begin_loop E i True st)) =
         calls st @ map (\<lambda>s. SmBegin s False False True)
           (present st ?t [i..<j]) @ [SmBegin s False False False]"
      by (simp add: begin_loop_None)
    then show ?thesis by blast
  next
    case (Some s)
    let ?r = "begin_ret E (calls st) s False False"
    let ?st1 = "emit (SmBegin s False False ?r) st"
    show ?thesis
    proof (cases ?r)
      case False
      with Some lt have
        "i \<le> i \<and> i < NofSubmodules \<and> SmList st ?t i = Some s \<and>
         calls (snd (begin_loop E i True st)) =
           calls st @ map (\<lambda>s. SmBegin s False False True)
             (present st ?t [i..<i]) @ [SmBegin s False False False]"
        by (simp add: begin_loop_Some begin_loop_exit)
      then show ?thesis by blast
    next
      case True
      with Some lt Suc.prems have "\<not> fst (begin_loop E (Suc i) True ?st1)"
        by (simp add: begin_loop_Some)
      from Suc.hyps(1)[OF n this] obtain j s' where j:
        "Suc i \<le> j" "j < NofSubmodules" "SmList st ?t j = Some s'"
        "calls (snd (begin_loop E (Suc i) True ?st1)) =
           calls ?st1 @ map (\<lambda>s. SmBegin s False False True)
             (present st ?t [Suc i..<j]) @ [SmBegin s' False False False]"
        by auto
      from j(1) have "present st ?t [i..<j] = s # present st ?t [Suc i..<j]"
        using Some by (simp add: present_step)
      with j Some lt True have
        "i \<le> j \<and> j < NofSubmodules \<and> SmList st ?t j = Some s' \<and>
         calls (snd (begin_loop E i True st)) =
           calls st @ map (\<lambda>s. SmBegin s False False True)
             (present st ?t [i..<j]) @ [SmBegin s' False False False]"
        by (simp add: begin_loop_Some)
      then show ?thesis by blast
    qed
  qed
qed


lemma begin_loop_shape:
  "\<exists>L. calls (snd (begin_loop E 0 True st)) = calls st @ L \<and>
     (fst (begin_loop E 0 True st) \<longrightarrow>
        L = map (\<lambda>s. SmBegin s False False True)
              (present st (unat (m_tmidx (this st))) [0..<NofSubmodules])) \<and>
     (\<not> fst (begin_loop E 0 True st) \<longrightarrow>
        (\<exists>j s. j < NofSubmodules \<and> SmList st (unat (m_tmidx (this st))) j = Some s \<and>
           L = map (\<lambda>s. SmBegin s False False True)
                 (present st (unat (m_tmidx (this st))) [0..<j]) @ [SmBegin s False False False]))"
proof (cases "fst (begin_loop E 0 True st)")
  case True
  with begin_loop_ok[OF True] show ?thesis by simp
next
  case False
  from begin_loop_fail[OF False] obtain j s where
    "j < NofSubmodules" "SmList st (unat (m_tmidx (this st))) j = Some s"
    "calls (snd (begin_loop E 0 True st)) =
       calls st @ map (\<lambda>s. SmBegin s False False True)
         (present st (unat (m_tmidx (this st))) [0..<j]) @ [SmBegin s False False False]"
    by blast
  with False show ?thesis by auto
qed


lemma stop_fields [simp]:
  "this (stop st) = this st" "SmList (stop st) = SmList st"
  "running (stop st) = (running st)(m_ptr (this st) := False)" "ldok (stop st) = ldok st"
  "calls (stop st) = calls st @ [Stop (m_ptr (this st))]"
  by (simp_all add: stop_def)

lemma start_fields [simp]:
  "this (start st) = this st" "SmList (start st) = SmList st"
  "running (start st) = (running st)(m_ptr (this st) := True)" "ldok (start st) = ldok st"
  "calls (start st) = calls st @ [Start (m_ptr (this st))]"
  by (simp_all add: start_def)

lemma setPwmLdok_fields [simp]:
  "this (setPwmLdok b st) = this st" "SmList (setPwmLdok b st) = SmList st"
  "running (setPwmLdok b st) = running st"
  "ldok (setPwmLdok b st) = (ldok st)(m_ptr (this st) := b)"
  "calls (setPwmLdok b st) = calls st @ [SetPwmLdok (m_ptr (this st)) b]"
  by (simp_all add: setPwmLdok_def)

lemma present_cong: "SmList st' = SmList st \<Longrightarrow> present st' = present st"
  by (rule ext)+ (simp add: present_def)

lemma begin_loop_shape_from:
  assumes "this st2 = this st" "SmList st2 = SmList st" "calls st2 = calls st @ pre"
  shows "\<exists>L. calls (snd (begin_loop E 0 True st2)) = calls st @ pre @ L \<and>
     (fst (begin_loop E 0 True st2) \<longrightarrow>
        L = map (\<lambda>s. SmBegin s False False True)
              (present st (unat (m_tmidx (this st))) [0..<NofSubmodules])) \<and>
     (\<not> fst (begin_loop E 0 True st2) \<longrightarrow>
        (\<exists>j s. j < NofSubmodules \<and> SmList st (unat (m_tmidx (this st))) j = Some s \<and>
           L = map (\<lambda>s. SmBegin s False False True)
                 (present st (unat (m_tmidx (this st))) [0..<j]) @ [SmBegin s False False False]))"
  using begin_loop_shape[of E st2] assms present_cong[OF assms(2)] by simp

lemma Timer_begin_shape:
  "\<exists>L. calls (snd (Timer_begin E doStart doSync st)) =
       calls st @ (if doStart then [Stop (m_ptr (this st))] else []) @
         (if doSync then [SetPwmLdok (m_ptr (this st)) False] else []) @ L @
         (if doSync then [SetPwmLdok (m_ptr (this st)) True] else []) @
         (if doStart \<and> fst (Timer_begin E doStart doSync st)
          then [Start (m_ptr (this st))] else []) \<and>
     (fst (Timer_begin E doStart doSync st) \<longrightarrow>
        L = map (\<lambda>s. SmBegin s False False True)
              (present st (unat (m_tmidx (this st))) [0..<NofSubmodules])) \<and>
     (\<not> fst (Timer_begin E doStart doSync st) \<longrightarrow>
        (\<exists>j s. j < NofSubmodules \<and> SmList st (unat (m_tmidx (this st))) j = Some s \<and>
           L = map (\<lambda>s. SmBegin s False False True)
                 (present st (unat (m_tmidx (this st))) [0..<j]) @ [SmBegin s False False False]))"
proof -
  let ?p = "m_ptr (this st)"
  let ?pre = "(if doStart then [Stop ?p] else []) @ (if doSync then [SetPwmLdok ?p False] else [])"
  define st1 where "st1 = (if doStart then stop st else st)"
  define st2 where "st2 = (if doSync then setPwmLdok False st1 else st1)"
  have st2: "this st2 = this st" "SmList st2 = SmList st" "calls st2 = calls st @ ?pre"
    by (simp_all add: st1_def st2_def)
  from begin_loop_shape_from[OF st2, of E] obtain L where L:
    "calls (snd (begin_loop E 0 True st2)) = calls st @ ?pre @ L"
    "fst (begin_loop E 0 True st2) \<longrightarrow>
        L = map (\<lambda>s. SmBegin s False False True)
              (present st (unat (m_tmidx (this st))) [0..<NofSubmodules])"
    "\<not> fst (begin_loop E 0 True st2) \<longrightarrow>
        (\<exists>j s. j < NofSubmodules \<and> SmList st (unat (m_tmidx (this st))) j = Some s \<and>
           L = map (\<lambda>s. SmBegin s False False True)
                 (present st (unat (m_tmidx (this st))) [0..<j]) @ [SmBegin s False False False])"
    by blast
  have f: "fst (Timer_begin E doStart doSync st) = fst (begin_loop E 0 True st2)"
    by (simp add: Timer_begin_def Let_def split_beta st1_def st2_def)
  have c: "calls (snd (Timer_begin E doStart doSync st)) =
       calls (snd (begin_loop E 0 True st2)) @
         (if doSync then [SetPwmLdok ?p True] else []) @
         (if doStart \<and> fst (begin_loop E 0 True st2) then [Start ?p] else [])"
    by (simp add: Timer_begin_def Let_def split_beta st1_def st2_def)
  show ?thesis
    apply (rule exI[of _ L])
    apply (simp only: f c L(1))
    using L(2,3) apply simp
    done
qed

lemma Timer_begin_frame:
  "this (snd (Timer_begin E doStart doSync st)) = this st \<and>
   SmList (snd (Timer_begin E doStart doSync st)) = SmList st"
  by (cases doStart; cases doSync)
     (simp_all add: Timer_begin_def Let_def split_beta)

lemma Timer_begin_bits:
  "running (snd (Timer_begin E doStart doSync st)) =
     (if doStart then (running st)(m_ptr (this st) := fst (Timer_begin E doStart doSync st))
      else running st) \<and>
   ldok (snd (Timer_begin E doStart doSync st)) =
     (if doSync then (ldok st)(m_ptr (this st) := True) else ldok st)"
  by (cases doStart; cases doSync)
     (simp_all add: Timer_begin_def Let_def split_beta)


lemma and3_mod4: "(w AND 0x03 = 0) = (unat w mod 4 = 0)" for w :: "8 word"
proof -
  have "w AND 0x03 = take_bit 2 w"
    by (simp add: take_bit_eq_mask mask_eq_exp_minus_1)
  then have "unat (w AND 0x03) = unat w mod 4"
    by (simp add: take_bit_eq_mod unat_mod)
  then show ?thesis
    by (metis unat_eq_0)
qed

lemma gt3_unat: "3 < w \<Longrightarrow> 4 \<le> unat w" for w :: "8 word"
  by (simp add: word_less_nat_alt)

lemma XBarFaultOutput_at_beyond: "4 \<le> f \<Longrightarrow> XBarFaultOutput_at t f = None"
  by (auto simp: XBarFaultOutput_at_def XBarFaultOutput_def nth_Cons' )

lemma new_calls_append [simp]: "calls st' = calls st @ L \<Longrightarrow> new_calls st st' = L"
  by (simp add: new_calls_def)

lemma broadcast_loop_exit: "\<not> i < NofSubmodules \<Longrightarrow> broadcast_loop c i st = st"
  by (subst broadcast_loop.simps) simp

lemma broadcast_loop_None:
  "i < NofSubmodules \<Longrightarrow> SmList st (unat (m_tmidx (this st))) i = None \<Longrightarrow>
   broadcast_loop c i st = broadcast_loop c (Suc i) st"
  by (subst broadcast_loop.simps) simp

lemma broadcast_loop_Some:
  "i < NofSubmodules \<Longrightarrow> SmList st (unat (m_tmidx (this st))) i = Some s \<Longrightarrow>
   broadcast_loop c i st = broadcast_loop c (Suc i) (emit (c s) st)"
  by (subst broadcast_loop.simps) simp

lemma broadcast_loop_frame:
  "this (broadcast_loop c i st) = this st \<and> SmList (broadcast_loop c i st) = SmList st \<and>
   running (broadcast_loop c i st) = running st \<and> ldok (broadcast_loop c i st) = ldok st \<and>
   calls (broadcast_loop c i st) =
     calls st @ map c (present st (unat (m_tmidx (this st))) [i..<NofSubmodules])"
proof (induction "NofSubmodules - i" arbitrary: i st)
  case 0
  then show ?case by (simp add: broadcast_loop_exit)
next
  case (Suc n)
  then have lt: "i < NofSubmodules" and n: "n = NofSubmodules - Suc i" by auto
  show ?case
  proof (cases "SmList st (unat (m_tmidx (this st))) i")
    case None
    with lt Suc.hyps(1)[OF n, of st] show ?thesis
      by (simp add: broadcast_loop_None present_step)
  next
    case (Some s)
    with lt Suc.hyps(1)[OF n, of "emit (c s) st"] show ?thesis
      by (simp add: broadcast_loop_Some present_step)
  qed
qed

lemma broadcast_loop_fields [simp]:
  "this (broadcast_loop c i st) = this st"
  "SmList (broadcast_loop c i st) = SmList st"
  "running (broadcast_loop c i st) = running st"
  "ldok (broadcast_loop c i st) = ldok st"
  using broadcast_loop_frame[of c i st] by simp_all

lemma updateSetting_loop_exit:
  "\<not> i < NofSubmodules \<Longrightarrow> updateSetting_loop E d i b st = (b, st)"
  by (subst updateSetting_loop.simps) simp

lemma updateSetting_loop_None:
  "i < NofSubmodules \<Longrightarrow> SmList st (unat (m_tmidx (this st))) i = None \<Longrightarrow>
   updateSetting_loop E d i b st = updateSetting_loop E d (Suc i) b st"
  by (subst updateSetting_loop.simps) simp

lemma updateSetting_loop_Some:
  "i < NofSubmodules \<Longrightarrow> SmList st (unat (m_tmidx (this st))) i = Some s \<Longrightarrow>
   updateSetting_loop E d i b st =
     updateSetting_loop E d (Suc i) (b \<and> updateSetting_ret E (calls st) s d)
       (emit (SmUpdateSetting s d (updateSetting_ret E (calls st) s d)) st)"
  by (subst updateSetting_loop.simps) (simp add: SubModule_updateSetting_def Let_def)

lemma updateSetting_loop_frame:
  "this (snd (updateSetting_loop E d i b st)) = this st \<and>
   SmList (snd (updateSetting_loop E d i b st)) = SmList st \<and>
   running (snd (updateSetting_loop E d i b st)) = running st \<and>
   ldok (snd (updateSetting_loop E d i b st)) = ldok st"
proof (induction "NofSubmodules - i" arbitrary: i b st)
  case 0
  then show ?case by (simp add: updateSetting_loop_exit)
next
  case (Suc n)
  then have lt: "i < NofSubmodules" and n: "n = NofSubmodules - Suc i" by auto
  show ?case
  proof (cases "SmList st (unat (m_tmidx (this st))) i")
    case None
    with lt Suc.hyps(1)[OF n, of b st] show ?thesis
      by (simp add: updateSetting_loop_None)
  next
    case (Some s)
    with lt Suc.hyps(1)[OF n, of "b \<and> updateSetting_ret E (calls st) s d"
        "emit (SmUpdateSetting s d (updateSetting_ret E (calls st) s d)) st"]
    show ?thesis
      by (simp add: updateSetting_loop_Some)
  qed
qed

lemma updateSetting_loop_fields [simp]:
  "this (snd (updateSetting_loop E d i b st)) = this st"
  "SmList (snd (updateSetting_loop E d i b st)) = SmList st"
  "running (snd (updateSetting_loop E d i b st)) = running st"
  "ldok (snd (updateSetting_loop E d i b st)) = ldok st"
  using updateSetting_loop_frame[of E d i b st] by simp_all

lemma updateSetting_loop_shape:
  "\<exists>rs. length rs = length (present st (unat (m_tmidx (this st))) [i..<NofSubmodules]) \<and>
     calls (snd (updateSetting_loop E d i b st)) =
       calls st @ map2 (\<lambda>s r. SmUpdateSetting s d r)
         (present st (unat (m_tmidx (this st))) [i..<NofSubmodules]) rs \<and>
     fst (updateSetting_loop E d i b st) = (b \<and> list_all id rs)"
proof (induction "NofSubmodules - i" arbitrary: i b st)
  case 0
  then show ?case by (simp add: updateSetting_loop_exit)
next
  case (Suc n)
  then have lt: "i < NofSubmodules" and n: "n = NofSubmodules - Suc i" by auto
  let ?t = "unat (m_tmidx (this st))"
  show ?case
  proof (cases "SmList st ?t i")
    case None
    with lt Suc.hyps(1)[OF n, of st b] show ?thesis
      by (simp add: updateSetting_loop_None present_step)
  next
    case (Some s)
    let ?r = "updateSetting_ret E (calls st) s d"
    let ?st1 = "emit (SmUpdateSetting s d ?r) st"
    from Suc.hyps(1)[OF n, of ?st1 "b \<and> ?r"] obtain rs where rs:
      "length rs = length (present st ?t [Suc i..<NofSubmodules])"
      "calls (snd (updateSetting_loop E d (Suc i) (b \<and> ?r) ?st1)) =
         calls ?st1 @ map2 (\<lambda>s r. SmUpdateSetting s d r)
           (present st ?t [Suc i..<NofSubmodules]) rs"
      "fst (updateSetting_loop E d (Suc i) (b \<and> ?r) ?st1) = ((b \<and> ?r) \<and> list_all id rs)"
      by auto
    with Some lt show ?thesis
      apply (intro exI[of _ "?r # rs"])
      apply (simp add: updateSetting_loop_Some present_step)
      done
  qed
qed

lemmas demo_defs = st_unit2_def env_B_fails_def env_ok_def cfg0_def Timer_ctor_def Pwm3_def
  NofSubmodules_def SubModule_begin_def SubModule_updateSetting_def stop_def start_def
  setPwmLdok_def emit_def new_calls_def

lemma filter_SmBegin_map [simp]:
  "filter is_SmBegin (map (\<lambda>s. SmBegin s a b r) xs) = map (\<lambda>s. SmBegin s a b r) xs"
  by (induction xs) simp_all

lemma filter_SetPwmLdok_map [simp]:
  "filter is_SetPwmLdok (map (\<lambda>s. SmBegin s a b r) xs) = []"
  by (induction xs) simp_all

lemma returned_map_True [simp]:
  "list_all returned (map (\<lambda>s. SmBegin s a b True) xs)"
  by (induction xs) simp_all

text \<open>What \<^verbatim>\<open>Timer::begin\<close> adds to the record, read through the three filters.\<close>

lemma Timer_begin_new_calls:
  "\<exists>L. new_calls st (snd (Timer_begin E doStart doSync st)) =
       (if doStart then [Stop (m_ptr (this st))] else []) @
         (if doSync then [SetPwmLdok (m_ptr (this st)) False] else []) @ L @
         (if doSync then [SetPwmLdok (m_ptr (this st)) True] else []) @
         (if doStart \<and> fst (Timer_begin E doStart doSync st)
          then [Start (m_ptr (this st))] else []) \<and>
     filter is_SmBegin (new_calls st (snd (Timer_begin E doStart doSync st))) = L \<and>
     filter is_SetPwmLdok L = [] \<and> Start (m_ptr (this st)) \<notin> set L \<and>
     (fst (Timer_begin E doStart doSync st) \<longrightarrow>
        L = map (\<lambda>s. SmBegin s False False True)
              (present st (unat (m_tmidx (this st))) [0..<NofSubmodules])) \<and>
     (\<not> fst (Timer_begin E doStart doSync st) \<longrightarrow>
        (\<exists>j s. j < NofSubmodules \<and> SmList st (unat (m_tmidx (this st))) j = Some s \<and>
           L = map (\<lambda>s. SmBegin s False False True)
                 (present st (unat (m_tmidx (this st))) [0..<j]) @ [SmBegin s False False False]))"
proof -
  from Timer_begin_shape[of E doStart doSync st] obtain L where L:
    "calls (snd (Timer_begin E doStart doSync st)) =
       calls st @ (if doStart then [Stop (m_ptr (this st))] else []) @
         (if doSync then [SetPwmLdok (m_ptr (this st)) False] else []) @ L @
         (if doSync then [SetPwmLdok (m_ptr (this st)) True] else []) @
         (if doStart \<and> fst (Timer_begin E doStart doSync st)
          then [Start (m_ptr (this st))] else [])"
    "fst (Timer_begin E doStart doSync st) \<longrightarrow>
        L = map (\<lambda>s. SmBegin s False False True)
              (present st (unat (m_tmidx (this st))) [0..<NofSubmodules])"
    "\<not> fst (Timer_begin E doStart doSync st) \<longrightarrow>
        (\<exists>j s. j < NofSubmodules \<and> SmList st (unat (m_tmidx (this st))) j = Some s \<and>
           L = map (\<lambda>s. SmBegin s False False True)
                 (present st (unat (m_tmidx (this st))) [0..<j]) @ [SmBegin s False False False])"
    by blast
  from L(2,3) have f: "filter is_SmBegin L = L" "filter is_SetPwmLdok L = []"
    "Start (m_ptr (this st)) \<notin> set L"
    by (cases "fst (Timer_begin E doStart doSync st)"; auto)+
  note n = new_calls_append[OF L(1)]
  show ?thesis
    apply (rule exI[of _ L])
    apply (simp only: n)
    using L(2,3) f apply simp
    done
qed


lemma present_append: "present st t (xs @ ys) = present st t xs @ present st t ys"
  by (simp add: present_def map_filter_def)

lemma returned_map2_SmBegin:
  "length rs \<le> length xs \<Longrightarrow>
   list_all returned (map2 (\<lambda>s r. SmBegin s a b r) xs rs) = list_all id rs"
proof (induction rs arbitrary: xs)
  case Nil
  show ?case by simp
next
  case (Cons r rs)
  then show ?case by (cases xs) simp_all
qed

section \<open>Claims on Timer::begin\<close>

text \<open>
  Claim C1, as the code has it. The loop of \<^verbatim>\<open>Timer::begin\<close> runs while
  \<^verbatim>\<open>(i < NofSubmodules) && success\<close>, so a failing submodule ends the fan-out.
  \<^verbatim>\<open>Timer::begin\<close> returns false exactly when some slot \<open>j\<close> holds a submodule whose
  \<^verbatim>\<open>begin\<close> returned false, every present submodule of an earlier slot was called with
  \<^verbatim>\<open>(false, false)\<close> and returned true, and that failing call is the last \<^verbatim>\<open>begin\<close> made:
  no submodule of a later slot is called.
\<close>

theorem Timer_begin_stops_at_first_failure:
  "(\<not> fst (Timer_begin E doStart doSync st)) =
   (\<exists>j s. j < NofSubmodules \<and> SmList st (unat (m_tmidx (this st))) j = Some s \<and>
      filter is_SmBegin (new_calls st (snd (Timer_begin E doStart doSync st))) =
        map (\<lambda>s. SmBegin s False False True) (present st (unat (m_tmidx (this st))) [0..<j]) @
        [SmBegin s False False False])"
proof -
  from Timer_begin_new_calls[of st E doStart doSync] obtain L where L:
    "filter is_SmBegin (new_calls st (snd (Timer_begin E doStart doSync st))) = L"
    "fst (Timer_begin E doStart doSync st) \<longrightarrow>
        L = map (\<lambda>s. SmBegin s False False True)
              (present st (unat (m_tmidx (this st))) [0..<NofSubmodules])"
    "\<not> fst (Timer_begin E doStart doSync st) \<longrightarrow>
        (\<exists>j s. j < NofSubmodules \<and> SmList st (unat (m_tmidx (this st))) j = Some s \<and>
           L = map (\<lambda>s. SmBegin s False False True)
                 (present st (unat (m_tmidx (this st))) [0..<j]) @ [SmBegin s False False False])"
    by blast
  show ?thesis
  proof (cases "fst (Timer_begin E doStart doSync st)")
    case False
    with L(1,3) show ?thesis by simp
  next
    case True
    with L(2) have all: "list_all returned L" by simp
    have "\<not> (\<exists>j s. L = map (\<lambda>s. SmBegin s False False True)
               (present st (unat (m_tmidx (this st))) [0..<j]) @ [SmBegin s False False False])"
    proof
      assume "\<exists>j s. L = map (\<lambda>s. SmBegin s False False True)
               (present st (unat (m_tmidx (this st))) [0..<j]) @ [SmBegin s False False False]"
      then obtain j s where "L = map (\<lambda>s. SmBegin s False False True)
               (present st (unat (m_tmidx (this st))) [0..<j]) @ [SmBegin s False False False]"
        by blast
      with all show False by simp
    qed
    with True L(1) show ?thesis by auto
  qed
qed

text \<open>
  Claim C1, the theorem at timer unit 2 with slots A, B, C where B fails.
\<close>

theorem Timer_begin_stops_at_first_failure_witness:
  "\<not> fst (Timer_begin env_B_fails True True st_unit2) \<and>
   (\<exists>j s. j < NofSubmodules \<and> SmList st_unit2 (unat (m_tmidx (this st_unit2))) j = Some s \<and>
      filter is_SmBegin (new_calls st_unit2 (snd (Timer_begin env_B_fails True True st_unit2))) =
        map (\<lambda>s. SmBegin s False False True)
          (present st_unit2 (unat (m_tmidx (this st_unit2))) [0..<j]) @
        [SmBegin s False False False])"
proof -
  have "\<not> fst (Timer_begin env_B_fails True True st_unit2)"
    by (simp add: Timer_begin_def Let_def split_beta begin_loop.simps demo_defs)
  with Timer_begin_stops_at_first_failure[of env_B_fails True True st_unit2]
  show ?thesis by simp
qed

text \<open>
  Claim C1 as stated asks that every other present submodule still receives its \<^verbatim>\<open>begin\<close>
  call. With slots A, B, C and B failing, C (object 12, slot 2) is present and is never
  called: the calls of \<^verbatim>\<open>begin(true, true)\<close> are exactly the five below.
\<close>

theorem Timer_begin_skips_later_submodules:
  "fst (Timer_begin env_B_fails True True st_unit2) = False \<and>
   SmList st_unit2 (unat (m_tmidx (this st_unit2))) 2 = Some 12 \<and>
   new_calls st_unit2 (snd (Timer_begin env_B_fails True True st_unit2)) =
     [Stop 102, SetPwmLdok 102 False, SmBegin 10 False False True,
      SmBegin 11 False False False, SetPwmLdok 102 True]"
  by (simp add: Timer_begin_def Let_def split_beta begin_loop.simps demo_defs)

text \<open>
  Claim C3. In \<^verbatim>\<open>begin(true, doSync)\<close> the first call made is \<^verbatim>\<open>stop\<close>, before any submodule
  is configured; \<^verbatim>\<open>start\<close> is called if and only if every \<^verbatim>\<open>begin\<close> that was invoked returned
  success, which is also the value returned; and the counters run on return if and only
  if the call succeeded, so a failed call leaves them stopped.
\<close>

theorem Timer_begin_stop_first_start_on_success:
  "take 1 (new_calls st (snd (Timer_begin E True doSync st))) = [Stop (m_ptr (this st))] \<and>
   (Start (m_ptr (this st)) \<in> set (new_calls st (snd (Timer_begin E True doSync st)))) =
     list_all returned (filter is_SmBegin (new_calls st (snd (Timer_begin E True doSync st)))) \<and>
   fst (Timer_begin E True doSync st) =
     list_all returned (filter is_SmBegin (new_calls st (snd (Timer_begin E True doSync st)))) \<and>
   running (snd (Timer_begin E True doSync st)) (m_ptr (this st)) =
     fst (Timer_begin E True doSync st)"
proof -
  let ?p = "m_ptr (this st)"
  let ?ok = "fst (Timer_begin E True doSync st)"
  let ?new = "new_calls st (snd (Timer_begin E True doSync st))"
  from Timer_begin_new_calls[of st E True doSync] obtain L where L:
    "?new = (if True then [Stop ?p] else []) @
         (if doSync then [SetPwmLdok ?p False] else []) @ L @
         (if doSync then [SetPwmLdok ?p True] else []) @
         (if True \<and> ?ok then [Start ?p] else [])"
    "filter is_SmBegin ?new = L" "Start ?p \<notin> set L"
    "?ok \<longrightarrow> L = map (\<lambda>s. SmBegin s False False True)
              (present st (unat (m_tmidx (this st))) [0..<NofSubmodules])"
    "\<not> ?ok \<longrightarrow>
        (\<exists>j s. j < NofSubmodules \<and> SmList st (unat (m_tmidx (this st))) j = Some s \<and>
           L = map (\<lambda>s. SmBegin s False False True)
                 (present st (unat (m_tmidx (this st))) [0..<j]) @ [SmBegin s False False False])"
    by blast
  from L(4,5) have r: "?ok = list_all returned L"
    by (cases ?ok) auto
  have s: "(Start ?p \<in> set ?new) = ?ok"
    using L(3) by (subst L(1)) simp
  have t: "take 1 ?new = [Stop ?p]"
    by (subst L(1)) simp
  have u: "running (snd (Timer_begin E True doSync st)) ?p = ?ok"
    using Timer_begin_bits[of E True doSync st] by simp
  from r s t u show ?thesis
    by (simp add: L(2))
qed

text \<open>
  Claim C3, the theorem at timer unit 2: with B failing no \<^verbatim>\<open>start\<close> is called and the
  counters stay stopped; with every submodule succeeding \<^verbatim>\<open>start\<close> is called.
\<close>

theorem Timer_begin_stop_first_start_on_success_witness:
  "take 1 (new_calls st_unit2 (snd (Timer_begin env_B_fails True True st_unit2))) = [Stop 102] \<and>
   Start 102 \<notin> set (new_calls st_unit2 (snd (Timer_begin env_B_fails True True st_unit2))) \<and>
   \<not> running (snd (Timer_begin env_B_fails True True st_unit2)) 102 \<and>
   Start 102 \<in> set (new_calls st_unit2 (snd (Timer_begin env_ok True True st_unit2))) \<and>
   running (snd (Timer_begin env_ok True True st_unit2)) 102"
proof -
  have a: "\<not> fst (Timer_begin env_B_fails True True st_unit2)"
    by (simp add: Timer_begin_def Let_def split_beta begin_loop.simps demo_defs)
  have b: "fst (Timer_begin env_ok True True st_unit2)"
    by (simp add: Timer_begin_def Let_def split_beta begin_loop.simps demo_defs)
  have p: "m_ptr (this st_unit2) = 102"
    by (simp add: demo_defs)
  from a b Timer_begin_stop_first_start_on_success[of st_unit2 env_B_fails True]
    Timer_begin_stop_first_start_on_success[of st_unit2 env_ok True]
  show ?thesis
    by (simp only: p) simp
qed

text \<open>
  Claim C7. The \<^verbatim>\<open>begin\<close> calls that \<^verbatim>\<open>Timer::begin\<close> makes go, in slot order, to the present
  submodules of the timer, each with the arguments \<^verbatim>\<open>(false, false)\<close>. Empty slots are
  skipped: as long as the calls made return true the fan-out goes on past every empty
  slot, so when all of them return true every present submodule has been called; only
  the last call made can have returned false. The result is the conjunction of what the
  invoked calls returned, so an empty slot is never a failure.
\<close>

theorem Timer_begin_calls_present_submodules_false_false:
  "(\<exists>rs. length rs \<le> length (present st (unat (m_tmidx (this st))) [0..<NofSubmodules]) \<and>
      filter is_SmBegin (new_calls st (snd (Timer_begin E doStart doSync st))) =
        map2 (\<lambda>s r. SmBegin s False False r)
          (present st (unat (m_tmidx (this st))) [0..<NofSubmodules]) rs \<and>
      list_all id (butlast rs) \<and>
      (list_all id rs \<longrightarrow>
         length rs = length (present st (unat (m_tmidx (this st))) [0..<NofSubmodules]))) \<and>
   fst (Timer_begin E doStart doSync st) =
     list_all returned (filter is_SmBegin (new_calls st (snd (Timer_begin E doStart doSync st))))"
proof -
  let ?t = "unat (m_tmidx (this st))"
  let ?P = "present st ?t [0..<NofSubmodules]"
  let ?ok = "fst (Timer_begin E doStart doSync st)"
  let ?new = "new_calls st (snd (Timer_begin E doStart doSync st))"
  from Timer_begin_new_calls[of st E doStart doSync] obtain L where L:
    "filter is_SmBegin ?new = L"
    "?ok \<longrightarrow> L = map (\<lambda>s. SmBegin s False False True) ?P"
    "\<not> ?ok \<longrightarrow>
        (\<exists>j s. j < NofSubmodules \<and> SmList st ?t j = Some s \<and>
           L = map (\<lambda>s. SmBegin s False False True) (present st ?t [0..<j]) @
               [SmBegin s False False False])"
    by blast
  from L(2,3) have r: "?ok = list_all returned L"
    by (cases ?ok) auto
  have "\<exists>rs. length rs \<le> length ?P \<and>
      L = map2 (\<lambda>s r. SmBegin s False False r) ?P rs \<and>
      list_all id (butlast rs) \<and> (list_all id rs \<longrightarrow> length rs = length ?P)"
  proof (cases ?ok)
    case True
    let ?rs = "replicate (length ?P) True"
    from True L(2) have "L = map2 (\<lambda>s r. SmBegin s False False r) ?P ?rs"
      by (simp add: zip_replicate2 map_zip_map2)
    moreover have "list_all id (butlast ?rs)"
      by (simp add: list_all_iff in_set_butlastD) (metis in_set_butlastD in_set_replicate)
    ultimately have "length ?rs \<le> length ?P \<and>
      L = map2 (\<lambda>s r. SmBegin s False False r) ?P ?rs \<and>
      list_all id (butlast ?rs) \<and> (list_all id ?rs \<longrightarrow> length ?rs = length ?P)"
      by simp
    then show ?thesis by blast
  next
    case False
    with L(3) obtain j s where j: "j < NofSubmodules" "SmList st ?t j = Some s"
      "L = map (\<lambda>s. SmBegin s False False True) (present st ?t [0..<j]) @
               [SmBegin s False False False]"
      by blast
    let ?A = "present st ?t [0..<j]"
    let ?rs = "replicate (length ?A) True @ [False]"
    have sp: "?P = ?A @ s # present st ?t [Suc j..<NofSubmodules]"
    proof -
      from j(1) have "[0..<NofSubmodules] = [0..<j] @ j # [Suc j..<NofSubmodules]"
        by (metis le0 upt_add_eq_append upt_conv_Cons less_imp_le_nat le_add_diff_inverse)
      then show ?thesis using j(2)
        by (simp add: present_append) (simp add: present_def)
    qed
    have "L = map2 (\<lambda>s r. SmBegin s False False r) ?P ?rs"
      by (simp add: sp j(3) zip_append1 map_zip_map2 zip_replicate2 take_Cons')
    moreover have "length ?rs \<le> length ?P"
      by (simp add: sp)
    moreover have "list_all id (butlast ?rs)" "\<not> list_all id ?rs"
      by (simp_all add: list_all_iff)
    ultimately have "length ?rs \<le> length ?P \<and>
      L = map2 (\<lambda>s r. SmBegin s False False r) ?P ?rs \<and>
      list_all id (butlast ?rs) \<and> (list_all id ?rs \<longrightarrow> length ?rs = length ?P)"
      by blast
    then show ?thesis by blast
  qed
  with r show ?thesis
    by (simp add: L(1))
qed

text \<open>
  Claim C7, the theorem at timer unit 0 with the slots empty, 20, empty, 21 and every
  call succeeding: both submodules are called, across the empty slots, and the result
  is true.
\<close>

theorem Timer_begin_calls_present_submodules_false_false_witness:
  "present st_gaps (unat (m_tmidx (this st_gaps))) [0..<NofSubmodules] = [20, 21] \<and>
   fst (Timer_begin env_ok True True st_gaps) \<and>
   (\<exists>rs. length rs = 2 \<and> list_all id rs \<and>
      filter is_SmBegin (new_calls st_gaps (snd (Timer_begin env_ok True True st_gaps))) =
        map2 (\<lambda>s r. SmBegin s False False r) [20, 21] rs)"
proof -
  let ?new = "new_calls st_gaps (snd (Timer_begin env_ok True True st_gaps))"
  have P: "present st_gaps (unat (m_tmidx (this st_gaps))) [0..<NofSubmodules] = [20, 21]"
    by (simp add: present_def st_gaps_def Timer_ctor_def Pwm1_def NofSubmodules_def
        upt_conv_Cons)
  have ok: "fst (Timer_begin env_ok True True st_gaps)"
    by (simp add: Timer_begin_def Let_def split_beta begin_loop.simps st_gaps_def env_ok_def
        Timer_ctor_def Pwm1_def NofSubmodules_def SubModule_begin_def stop_def start_def
        setPwmLdok_def emit_def)
  from Timer_begin_calls_present_submodules_false_false[of st_gaps env_ok True True]
  obtain rs where rs:
    "length rs \<le> length [20::nat, 21]"
    "filter is_SmBegin ?new = map2 (\<lambda>s r. SmBegin s False False r) [20, 21] rs"
    "list_all id rs \<longrightarrow> length rs = length [20::nat, 21]"
    "fst (Timer_begin env_ok True True st_gaps) = list_all returned (filter is_SmBegin ?new)"
    unfolding P by blast
  from ok rs(4) have "list_all returned (map2 (\<lambda>s r. SmBegin s False False r) [20, 21] rs)"
    by (simp only: rs(2))
  with returned_map2_SmBegin[OF rs(1)] have all: "list_all id rs"
    by simp
  with rs(3) have "length rs = 2" by simp
  with all rs(2) P ok show ?thesis by blast
qed

section \<open>Claims on Timer::updateSetting and the load-ok window\<close>

lemma filter_SetPwmLdok_map2 [simp]:
  "filter is_SetPwmLdok (map2 (\<lambda>s r. SmUpdateSetting s d r) xs rs) = []"
  by (induction xs arbitrary: rs) (simp_all add: zip_Cons1 split: list.splits)

lemma Timer_updateSetting_shape:
  "\<exists>rs. length rs = length (present st (unat (m_tmidx (this st))) [0..<NofSubmodules]) \<and>
     new_calls st (snd (Timer_updateSetting E doSync st)) =
       map2 (\<lambda>s r. SmUpdateSetting s doSync r)
         (present st (unat (m_tmidx (this st))) [0..<NofSubmodules]) rs \<and>
     fst (Timer_updateSetting E doSync st) = list_all id rs"
proof -
  from updateSetting_loop_shape[of st 0 E doSync True] obtain rs where rs:
    "length rs = length (present st (unat (m_tmidx (this st))) [0..<NofSubmodules])"
    "calls (snd (updateSetting_loop E doSync 0 True st)) =
       calls st @ map2 (\<lambda>s r. SmUpdateSetting s doSync r)
         (present st (unat (m_tmidx (this st))) [0..<NofSubmodules]) rs"
    "fst (updateSetting_loop E doSync 0 True st) = (True \<and> list_all id rs)"
    by blast
  show ?thesis
    apply (rule exI[of _ rs])
    apply (simp add: Timer_updateSetting_def rs(1,3) new_calls_append[OF rs(2)])
    done
qed

text \<open>
  Claim C2, as the code has it. \<^verbatim>\<open>Timer::updateSetting(doSync)\<close> never calls \<^verbatim>\<open>setPwmLdok\<close>:
  it calls \<^verbatim>\<open>updateSetting(doSync)\<close> on every present submodule, in slot order, handing
  \<^verbatim>\<open>doSync\<close> down unchanged, returns the conjunction of the results, and leaves the
  load-ok flag as it found it.
\<close>

theorem Timer_updateSetting_forwards_doSync:
  "(\<exists>rs. length rs = length (present st (unat (m_tmidx (this st))) [0..<NofSubmodules]) \<and>
      new_calls st (snd (Timer_updateSetting E doSync st)) =
        map2 (\<lambda>s r. SmUpdateSetting s doSync r)
          (present st (unat (m_tmidx (this st))) [0..<NofSubmodules]) rs \<and>
      fst (Timer_updateSetting E doSync st) = list_all id rs) \<and>
   ldok (snd (Timer_updateSetting E doSync st)) = ldok st"
  using Timer_updateSetting_shape[of st E doSync]
  by (simp add: Timer_updateSetting_def)

text \<open>
  Claim C2 as stated asks \<^verbatim>\<open>updateSetting(true)\<close> to clear and set load-ok around the
  fan-out as \<^verbatim>\<open>begin\<close> does. On timer unit 2 the calls of \<^verbatim>\<open>updateSetting(true)\<close> are the
  three submodule calls and nothing else, while \<^verbatim>\<open>begin(false, true)\<close> brackets its
  fan-out with the two \<^verbatim>\<open>setPwmLdok\<close> calls.
\<close>

theorem Timer_updateSetting_opens_no_window:
  "new_calls st_unit2 (snd (Timer_updateSetting env_ok True st_unit2)) =
     [SmUpdateSetting 10 True True, SmUpdateSetting 11 True True, SmUpdateSetting 12 True True] \<and>
   new_calls st_unit2 (snd (Timer_begin env_ok False True st_unit2)) =
     [SetPwmLdok 102 False, SmBegin 10 False False True, SmBegin 11 False False True,
      SmBegin 12 False False True, SetPwmLdok 102 True]"
  by (simp add: Timer_updateSetting_def updateSetting_loop.simps
      Timer_begin_def Let_def split_beta begin_loop.simps demo_defs)

text \<open>
  Claim C4. Whatever the submodules return, \<^verbatim>\<open>begin(_, true)\<close> makes exactly two
  \<^verbatim>\<open>setPwmLdok\<close> calls, first false and last true, and load-ok is set when it returns;
  \<^verbatim>\<open>updateSetting(true)\<close> makes no \<^verbatim>\<open>setPwmLdok\<close> call at all and leaves the flag unchanged,
  so it opens no window that could stay open.
\<close>

theorem ldok_window_closed_on_return:
  "filter is_SetPwmLdok (new_calls st (snd (Timer_begin E doStart True st))) =
     [SetPwmLdok (m_ptr (this st)) False, SetPwmLdok (m_ptr (this st)) True] \<and>
   ldok (snd (Timer_begin E doStart True st)) (m_ptr (this st)) \<and>
   filter is_SetPwmLdok (new_calls st (snd (Timer_updateSetting E True st))) = [] \<and>
   ldok (snd (Timer_updateSetting E True st)) = ldok st"
proof -
  let ?p = "m_ptr (this st)"
  let ?ok = "fst (Timer_begin E doStart True st)"
  from Timer_begin_new_calls[of st E doStart True] obtain L where L:
    "new_calls st (snd (Timer_begin E doStart True st)) =
       (if doStart then [Stop ?p] else []) @ (if True then [SetPwmLdok ?p False] else []) @ L @
       (if True then [SetPwmLdok ?p True] else []) @ (if doStart \<and> ?ok then [Start ?p] else [])"
    "filter is_SetPwmLdok L = []"
    by blast
  have a: "filter is_SetPwmLdok (new_calls st (snd (Timer_begin E doStart True st))) =
     [SetPwmLdok ?p False, SetPwmLdok ?p True]"
    by (subst L(1)) (simp add: L(2))
  have b: "ldok (snd (Timer_begin E doStart True st)) ?p"
    using Timer_begin_bits[of E doStart True st] by simp
  from Timer_updateSetting_shape[of st E True] obtain rs where
    "new_calls st (snd (Timer_updateSetting E True st)) =
       map2 (\<lambda>s r. SmUpdateSetting s True r)
         (present st (unat (m_tmidx (this st))) [0..<NofSubmodules]) rs"
    by blast
  then have c: "filter is_SetPwmLdok (new_calls st (snd (Timer_updateSetting E True st))) = []"
    by simp
  have d: "ldok (snd (Timer_updateSetting E True st)) = ldok st"
    by (simp add: Timer_updateSetting_def)
  from a b c d show ?thesis by simp
qed

section \<open>Claims on Timer::setupFaults\<close>

text \<open>
  Claim C5. When \<^verbatim>\<open>faultNum\<close> modulo 4 is not zero, \<^verbatim>\<open>setupFaults\<close> returns the state it was
  given: no call is made and nothing is signalled. When \<^verbatim>\<open>faultNum\<close> modulo 4 is zero,
  the calls made are the routing call (only for a positive \<^verbatim>\<open>faultPin\<close>) followed by
  \<^verbatim>\<open>PWM_SetupFaults\<close> with the native record of \<^verbatim>\<open>faultConfig\<close>.
\<close>

theorem setupFaults_alignment_guard:
  "(unat faultNum mod 4 \<noteq> 0 \<longrightarrow> Timer_setupFaults faultNum faultConfig faultPin st = st) \<and>
   (unat faultNum mod 4 = 0 \<longrightarrow>
      new_calls st (Timer_setupFaults faultNum faultConfig faultPin st) =
        (if faultPin > 0
         then [XbarConnect faultPin
                 (XBarFaultOutput_at (unat (m_tmidx (this st))) (unat faultNum))]
         else []) @
        [PwmSetupFaults (m_ptr (this st)) faultNum (kPwmConfig faultConfig)])"
  by (simp add: Timer_setupFaults_def and3_mod4 Let_def new_calls_def)

text \<open>
  Claim C5, the theorem at \<^verbatim>\<open>faultNum = 1\<close> (nothing happens) and \<^verbatim>\<open>faultNum = 0\<close> (routed to
  the first entry of the row of timer unit 2, then applied).
\<close>

theorem setupFaults_alignment_guard_witness:
  "unat (1 :: 8 word) mod 4 \<noteq> 0 \<and> Timer_setupFaults 1 cfg0 7 st_unit2 = st_unit2 \<and>
   unat (0 :: 8 word) mod 4 = 0 \<and>
   new_calls st_unit2 (Timer_setupFaults 0 cfg0 7 st_unit2) =
     [XbarConnect 7 (Some XBARA1_OUT_FLEXPWM3_FAULT0), PwmSetupFaults 102 0 0]"
proof -
  have a: "unat (1 :: 8 word) mod 4 \<noteq> 0" "unat (0 :: 8 word) mod 4 = 0"
    by simp_all
  have t: "XBarFaultOutput_at (unat (m_tmidx (this st_unit2))) 0 =
      Some XBARA1_OUT_FLEXPWM3_FAULT0"
    by (simp add: XBarFaultOutput_at_def XBarFaultOutput_def demo_defs)
  have p: "m_ptr (this st_unit2) = 102" "kPwmConfig cfg0 = 0"
    by (simp_all add: demo_defs)
  from a setupFaults_alignment_guard[of 1 cfg0 7 st_unit2]
    setupFaults_alignment_guard[of 0 cfg0 7 st_unit2]
  show ?thesis
    by (simp add: t p)
qed

text \<open>
  Claim C6 at \<^verbatim>\<open>faultNum = 4\<close>, \<^verbatim>\<open>faultPin = 7\<close> on timer unit 2. The guard of line 182 lets 4
  pass, the row of the table has the entries 0 to 3 only, and \<^verbatim>\<open>xbar_connect\<close> is called
  with a value that is no entry of the table at that position.
\<close>

theorem setupFaults_fault4_reads_outside_row:
  "(4 :: 8 word) AND 0x03 = 0 \<and>
   new_calls st_unit2 (Timer_setupFaults 4 cfg0 7 st_unit2) =
     [XbarConnect 7 None, PwmSetupFaults 102 4 0]"
  by (simp add: Timer_setupFaults_def Let_def demo_defs XBarFaultOutput_at_def XBarFaultOutput_def)

text \<open>
  Claim C9. For every \<^verbatim>\<open>faultNum\<close> that is a multiple of 4 and greater than 3 and every
  positive \<^verbatim>\<open>faultPin\<close>, the guard of line 182 holds, the read of the table at
  \<^verbatim>\<open>[m_tmidx][faultNum]\<close> is outside the four entries of the row, and the routing call is
  made with that missing entry before the fault record is applied.
\<close>

theorem setupFaults_aligned_beyond_table:
  "unat faultNum mod 4 = 0 \<Longrightarrow> 3 < faultNum \<Longrightarrow> 0 < faultPin \<Longrightarrow>
   faultNum AND 0x03 = 0 \<and>
   XBarFaultOutput_at (unat (m_tmidx (this st))) (unat faultNum) = None \<and>
   new_calls st (Timer_setupFaults faultNum faultConfig faultPin st) =
     [XbarConnect faultPin None,
      PwmSetupFaults (m_ptr (this st)) faultNum (kPwmConfig faultConfig)]"
  by (simp add: Timer_setupFaults_def and3_mod4 Let_def new_calls_def
      XBarFaultOutput_at_beyond gt3_unat)

text \<open>Claim C9, the theorem at \<^verbatim>\<open>faultNum = 252\<close>, \<^verbatim>\<open>faultPin = 7\<close> on timer unit 2.\<close>

theorem setupFaults_aligned_beyond_table_witness:
  "unat (252 :: 8 word) mod 4 = 0 \<and> (3 :: 8 word) < 252 \<and> (0 :: int) < 7 \<and>
   XBarFaultOutput_at (unat (m_tmidx (this st_unit2))) (unat (252 :: 8 word)) = None \<and>
   new_calls st_unit2 (Timer_setupFaults 252 cfg0 7 st_unit2) =
     [XbarConnect 7 None, PwmSetupFaults 102 252 0]"
proof -
  have a: "unat (252 :: 8 word) mod 4 = 0" "(3 :: 8 word) < 252" "(0 :: int) < 7"
    by simp_all
  have p: "m_ptr (this st_unit2) = 102" "kPwmConfig cfg0 = 0"
    by (simp_all add: demo_defs)
  from setupFaults_aligned_beyond_table[OF a, of st_unit2 cfg0] a p
  show ?thesis by simp
qed

section \<open>Claims on construction and on the fields of the Timer\<close>

text \<open>
  Claim C10. The constructor sets the enabled flag to true for every index, without any
  call to \<^verbatim>\<open>enable\<close>, \<^verbatim>\<open>begin\<close> or \<^verbatim>\<open>start\<close>; the four timers of the registry, with the
  indices 0 to 3, are therefore all enabled when the program starts.
\<close>

theorem Timer_ctor_enabled:
  "m_isenabled (Timer_ctor PWM index) \<and>
   map m_isenabled (TMF PWM) = [True, True, True, True] \<and>
   map m_tmidx (TMF PWM) = [0, 1, 2, 3]"
  by (simp add: Timer_ctor_def TMF_def Pwm1_def Pwm2_def Pwm3_def Pwm4_def)

lemma exec_frame:
  "m_tmidx (this (exec E x st)) = m_tmidx (this st) \<and>
   m_ptr (this (exec E x st)) = m_ptr (this st) \<and>
   SmList (exec E x st) = SmList st \<and>
   m_isenabled (this (exec E x st)) = last_enable [x] (m_isenabled (this st))"
proof (cases x)
  case (Begin a b)
  then show ?thesis using Timer_begin_frame[of E a b st] by simp
next
  case (SetupFaults n c p)
  then show ?thesis by (simp add: Timer_setupFaults_def Let_def)
qed (simp_all add: Timer_enable_def Timer_setupLevel_def Timer_setupDeadtime_def
    Timer_setupOutputEnable_def Timer_setupDutyCyclePercent_def Timer_setupFaultState_def
    Timer_updateSetting_def Let_def)

lemma last_enable_Cons: "last_enable (x # xs) b = last_enable xs (last_enable [x] b)"
  by (cases x) simp_all

text \<open>
  Claim C8. After any sequence of the nine public operations the index, the register
  block and the slot table are those the sequence started with, and the enabled flag
  holds the argument of the last \<^verbatim>\<open>enable\<close> of the sequence, or its initial value when
  the sequence has none.
\<close>

theorem run_keeps_identity:
  "m_tmidx (this (run E ops st)) = m_tmidx (this st) \<and>
   m_ptr (this (run E ops st)) = m_ptr (this st) \<and>
   SmList (run E ops st) = SmList st \<and>
   m_isenabled (this (run E ops st)) = last_enable ops (m_isenabled (this st))"
proof (induction ops arbitrary: st)
  case Nil
  show ?case by simp
next
  case (Cons x xs)
  from Cons.IH[of "exec E x st"] exec_frame[of E x st] show ?case
    by (simp add: last_enable_Cons[of x xs])
qed

end
